theory Spec2Isabelle
  imports Main "HOL-Library.Word"
begin

section \<open>The callback timer of CallbackTimer.cpp\<close>

text \<open>
  The class \<^verbatim>\<open>Timer\<close> has eight private members. \<^verbatim>\<open>unsigned long\<close> is 32 bits
  on the Arduino cores, and its subtraction wraps. \<^verbatim>\<open>int\<close> is taken as 16 bits (AVR):
  the code only assigns \<^verbatim>\<open>_repetitionCount\<close>, decrements it and compares it with
  zero, so its sign plays no role, and its width only where a decrement passes the least
  value, which C++ leaves undefined and the model wraps. A function pointer is an optional
  label: \<open>None\<close> is \<^verbatim>\<open>nullptr\<close>. The members have the prefix \<open>m_\<close> in place of the
  underscore of the source.
\<close>

record 'cb timer =
  m_repeatMode :: bool
  m_repetitionCount :: "16 word"
  m_time :: "32 word"
  m_last :: "32 word"
  m_done :: bool
  m_started :: bool
  m_execOnce :: bool
  m_callback :: "'cb option"

text \<open>
  The timer lives in a world that supplies \<^verbatim>\<open>millis()\<close> and receives the calls of the
  registered function. The time source is the sequence of values that the successive
  calls of \<^verbatim>\<open>millis()\<close> return: \<open>clock w k\<close> is what the call number \<open>k\<close>
  returns, and \<open>reads w\<close> counts the calls made so far. So time may advance between any two
  reads, also inside one member function. \<open>fired w\<close> logs the invoked functions, oldest
  first. A registered function is opaque: it touches neither the timer nor the clock.
\<close>

record 'cb world = "'cb timer" +
  clock :: "nat \<Rightarrow> 32 word"
  reads :: nat
  fired :: "'cb list"

text \<open>Calling through a null function pointer is the one failure of the code.\<close>

datatype error = NullCallback

text \<open>
  \<^verbatim>\<open>Timer(unsigned long duration) : _time(duration)\<close> initialises the duration alone;
  the other members are those of an object with static storage (a global timer of a
  sketch), which are zero.
\<close>

definition Timer :: "(nat \<Rightarrow> 32 word) \<Rightarrow> 32 word \<Rightarrow> 'cb world" where
  "Timer clk duration =
     \<lparr> m_repeatMode = False, m_repetitionCount = 0, m_time = duration, m_last = 0,
       m_done = False, m_started = False, m_execOnce = False, m_callback = None,
       clock = clk, reads = 0, fired = [] \<rparr>"

subsection \<open>Queries\<close>

definition millis :: "'cb world \<Rightarrow> 32 word \<times> 'cb world" where
  "millis w = (clock w (reads w), w\<lparr>reads := Suc (reads w)\<rparr>)"

definition hasStarted :: "'cb world \<Rightarrow> bool" where
  "hasStarted w = m_started w"

definition getEllapsed :: "'cb world \<Rightarrow> 32 word \<times> 'cb world" where
  "getEllapsed w = (let (now, w1) = millis w in (now - m_last w1, w1))"

text \<open>\<^verbatim>\<open>hasStarted() && ...\<close> short-circuits: a timer that is not started reads no time.\<close>

definition isDone :: "'cb world \<Rightarrow> bool \<times> 'cb world" where
  "isDone w =
     (if hasStarted w then
        (let (e, w1) = getEllapsed w in
         if m_time w1 \<le> e then (True, w1\<lparr>m_done := True\<rparr>) else (False, w1))
      else (False, w))"

definition isRunning :: "'cb world \<Rightarrow> bool \<times> 'cb world" where
  "isRunning w =
     (if hasStarted w then (let (d, w1) = isDone w in (\<not> d, w1)) else (False, w))"

subsection \<open>Commands\<close>

definition set_duration :: "32 word \<Rightarrow> 'cb world \<Rightarrow> 'cb world" where
  "set_duration duration w = w\<lparr>m_time := duration\<rparr>"

definition start :: "'cb world \<Rightarrow> 'cb world" where
  "start w = (let (now, w1) = millis w in w1\<lparr>m_last := now, m_done := False, m_started := True\<rparr>)"

definition stop :: "'cb world \<Rightarrow> 32 word \<times> 'cb world" where
  "stop w =
     (let (d, w1) = isDone w;
          w2 = w1\<lparr>m_done := d\<rparr>;
          (r, w3) = isRunning w2;
          w4 = (if r then (let (now, w') = millis w3 in w'\<lparr>m_last := now\<rparr>) else w3);
          w5 = w4\<lparr>m_started := False\<rparr>
      in getEllapsed w5)"

definition reset :: "'cb world \<Rightarrow> 'cb world" where
  "reset w =
     (let (e, w1) = stop w;
          (d, w2) = isDone w1;
          w3 = w2\<lparr>m_done := d\<rparr>;
          (now, w4) = millis w3
      in w4\<lparr>m_last := now, m_repetitionCount := 0, m_callback := None\<rparr>)"

text \<open>\<^verbatim>\<open>_callback()\<close>: the call of the stored pointer.\<close>

definition invoke :: "'cb world \<Rightarrow> error + 'cb world" where
  "invoke w =
     (case m_callback w of
        None \<Rightarrow> Inl NullCallback
      | Some f \<Rightarrow> Inr (w\<lparr>fired := fired w @ [f]\<rparr>))"

definition setTimeout_task :: "'cb option \<Rightarrow> 'cb world \<Rightarrow> bool \<times> 'cb world" where
  "setTimeout_task task w =
     (let (r, w1) = isRunning w in
      if r then (False, w1)
      else (True, start (w1\<lparr>m_callback := task, m_repeatMode := False\<rparr>)))"

definition setTimeout :: "32 word \<Rightarrow> 'cb option \<Rightarrow> 'cb world \<Rightarrow> bool \<times> 'cb world" where
  "setTimeout delayPeriod task w =
     (let (r, w1) = isRunning w in
      if r then (False, w1)
      else setTimeout_task task (set_duration delayPeriod w1))"

definition setInterval_times ::
  "32 word \<Rightarrow> 16 word \<Rightarrow> 'cb option \<Rightarrow> 'cb world \<Rightarrow> bool \<times> 'cb world" where
  "setInterval_times period n_times task w =
     (let (r, w1) = isRunning w in
      if r \<or> m_execOnce w1 then (False, w1)
      else
        (let w2 = reset w1;
             w3 = w2\<lparr>m_callback := task\<rparr>;
             w4 = set_duration period w3;
             w5 = w4\<lparr>m_repetitionCount := n_times, m_repeatMode := True\<rparr>
         in (True, start w5)))"

definition setInterval :: "32 word \<Rightarrow> 'cb option \<Rightarrow> 'cb world \<Rightarrow> bool \<times> 'cb world" where
  "setInterval period task w = setInterval_times period (- 1) task w"

definition tick :: "'cb world \<Rightarrow> error + 'cb world" where
  "tick w =
     (case (if m_repeatMode w \<and> \<not> m_execOnce w
            then invoke (w\<lparr>m_execOnce := True, m_repetitionCount := m_repetitionCount w - 1\<rparr>)
            else Inr w) of
        Inl err \<Rightarrow> Inl err
      | Inr w1 \<Rightarrow>
          (let (d, w2) = isDone w1 in
           if \<not> d then Inr w2
           else if m_callback w2 = None then Inr w2
           else if \<not> m_repeatMode w2 then
             (case invoke w2 of Inl err \<Rightarrow> Inl err | Inr w3 \<Rightarrow> Inr (reset w3))
           else if m_repetitionCount w2 \<noteq> 0 then
             (case invoke w2 of
                Inl err \<Rightarrow> Inl err
              | Inr w3 \<Rightarrow> Inr (start (w3\<lparr>m_repetitionCount := m_repetitionCount w3 - 1\<rparr>)))
           else
             (let t = m_repetitionCount w2; w3 = reset w2
              in Inr (w3\<lparr>m_repetitionCount := t\<rparr>))))"

subsection \<open>Sequences of calls\<close>

text \<open>Polling: \<open>n\<close> calls of \<^verbatim>\<open>tick()\<close> in a row; a failure ends the run.\<close>

fun ticks :: "nat \<Rightarrow> 'cb world \<Rightarrow> error + 'cb world" where
  "ticks 0 w = Inr w"
| "ticks (Suc n) w = (case tick w of Inl err \<Rightarrow> Inl err | Inr w1 \<Rightarrow> ticks n w1)"

text \<open>
  The public interface, as values: a sequence of calls made by a sketch. The results of the
  queries are dropped; what remains is the state after the call.
\<close>

datatype 'cb call =
    SetTimeout "32 word" "'cb option"
  | SetTimeoutTask "'cb option"
  | SetInterval "32 word" "'cb option"
  | SetIntervalTimes "32 word" "16 word" "'cb option"
  | Start
  | Stop
  | Reset
  | SetDuration "32 word"
  | Tick
  | IsDone
  | IsRunning
  | GetEllapsed

fun do_call :: "'cb call \<Rightarrow> 'cb world \<Rightarrow> error + 'cb world" where
  "do_call (SetTimeout d task) w = Inr (snd (setTimeout d task w))"
| "do_call (SetTimeoutTask task) w = Inr (snd (setTimeout_task task w))"
| "do_call (SetInterval p task) w = Inr (snd (setInterval p task w))"
| "do_call (SetIntervalTimes p n task) w = Inr (snd (setInterval_times p n task w))"
| "do_call Start w = Inr (start w)"
| "do_call Stop w = Inr (snd (stop w))"
| "do_call Reset w = Inr (reset w)"
| "do_call (SetDuration d) w = Inr (set_duration d w)"
| "do_call Tick w = tick w"
| "do_call IsDone w = Inr (snd (isDone w))"
| "do_call IsRunning w = Inr (snd (isRunning w))"
| "do_call GetEllapsed w = Inr (snd (getEllapsed w))"

fun do_calls :: "'cb call list \<Rightarrow> 'cb world \<Rightarrow> error + 'cb world" where
  "do_calls [] w = Inr w"
| "do_calls (c # cs) w = (case do_call c w of Inl err \<Rightarrow> Inl err | Inr w1 \<Rightarrow> do_calls cs w1)"

text \<open>The function that a call hands to the timer, if any.\<close>

fun task_of :: "'cb call \<Rightarrow> 'cb option" where
  "task_of (SetTimeout d task) = task"
| "task_of (SetTimeoutTask task) = task"
| "task_of (SetInterval p task) = task"
| "task_of (SetIntervalTimes p n task) = task"
| "task_of c = None"

subsection \<open>Notions used in the proofs\<close>

text \<open>
  \<open>advances w w'\<close>: from \<open>w\<close> to \<open>w'\<close> the time source is the same, some reads
  were made, and \<^verbatim>\<open>_last\<close> is unchanged or is one of the values read in between.
\<close>

definition advances :: "'cb world \<Rightarrow> 'cb world \<Rightarrow> bool" where
  "advances w w' =
     (clock w' = clock w \<and> reads w \<le> reads w' \<and>
      (m_last w' = m_last w \<or> m_last w' \<in> clock w ` {reads w ..< reads w'}))"

text \<open>\<^verbatim>\<open>_last\<close> is the initial zero or a value that \<^verbatim>\<open>millis()\<close> has returned.\<close>

definition last_read :: "'cb world \<Rightarrow> bool" where
  "last_read w = (m_last w = 0 \<or> m_last w \<in> clock w ` {..< reads w})"

text \<open>
  \<open>quiet f w w'\<close>: the function \<open>f\<close> is not the stored one in \<open>w'\<close> and was not
  invoked between \<open>w\<close> and \<open>w'\<close>.
\<close>

definition quiet :: "'cb \<Rightarrow> 'cb world \<Rightarrow> 'cb world \<Rightarrow> bool" where
  "quiet f w w' =
     (m_callback w' \<noteq> Some f \<and> count_list (fired w') f = count_list (fired w) f)"



subsection \<open>Two time sources for the examples\<close>

text \<open>\<open>step_clock s\<close> advances by \<open>s\<close> milliseconds from each read to the next.\<close>

definition step_clock :: "32 word \<Rightarrow> nat \<Rightarrow> 32 word" where
  "step_clock s k = s * of_nat k"

text \<open>
  \<open>coarse_clock\<close> reads 0 once, then 150 four times, then 1200 for ever: a monotone time
  source that stands still during some calls.
\<close>

definition coarse_clock :: "nat \<Rightarrow> 32 word" where
  "coarse_clock k = (if k = 0 then 0 else if k < 5 then 150 else 1200)"

section \<open>What each member function does\<close>

text \<open>The functions in closed form, by the case of \<^verbatim>\<open>_started\<close>.\<close>

lemma millis_eq: "millis w = (clock w (reads w), w\<lparr>reads := Suc (reads w)\<rparr>)"
  by (simp add: millis_def)

lemma getEllapsed_eq:
  "getEllapsed w = (clock w (reads w) - m_last w, w\<lparr>reads := Suc (reads w)\<rparr>)"
  by (simp add: getEllapsed_def millis_def)

lemma isDone_stopped: "\<not> m_started w \<Longrightarrow> isDone w = (False, w)"
  by (simp add: isDone_def hasStarted_def)

lemma isDone_started:
  "m_started w \<Longrightarrow> isDone w =
     (if m_time w \<le> clock w (reads w) - m_last w
      then (True, w\<lparr>reads := Suc (reads w), m_done := True\<rparr>)
      else (False, w\<lparr>reads := Suc (reads w)\<rparr>))"
  by (simp add: isDone_def hasStarted_def getEllapsed_eq)

lemma isRunning_stopped: "\<not> m_started w \<Longrightarrow> isRunning w = (False, w)"
  by (simp add: isRunning_def hasStarted_def)

lemma isRunning_started:
  "m_started w \<Longrightarrow> isRunning w =
     (if m_time w \<le> clock w (reads w) - m_last w
      then (False, w\<lparr>reads := Suc (reads w), m_done := True\<rparr>)
      else (True, w\<lparr>reads := Suc (reads w)\<rparr>))"
  by (simp add: isRunning_def hasStarted_def isDone_started)

lemma start_eq:
  "start w = w\<lparr>reads := Suc (reads w), m_last := clock w (reads w), m_done := False, m_started := True\<rparr>"
  by (simp add: start_def millis_def)

lemma stop_stopped:
  "\<not> m_started w \<Longrightarrow>
   stop w = (clock w (reads w) - m_last w, w\<lparr>m_done := False, m_started := False, reads := Suc (reads w)\<rparr>)"
  by (simp add: stop_def isDone_stopped isRunning_stopped getEllapsed_eq)

lemma stop_started:
  "m_started w \<Longrightarrow>
   stop w =
     (if m_time w \<le> clock w (Suc (reads w)) - m_last w
      then (clock w (Suc (Suc (reads w))) - m_last w,
            w\<lparr>m_done := True, m_started := False, reads := Suc (Suc (Suc (reads w)))\<rparr>)
      else (clock w (Suc (Suc (Suc (reads w)))) - clock w (Suc (Suc (reads w))),
            w\<lparr>m_done := (m_time w \<le> clock w (reads w) - m_last w),
               m_last := clock w (Suc (Suc (reads w))), m_started := False,
               reads := Suc (Suc (Suc (Suc (reads w))))\<rparr>))"
  by (simp add: stop_def isDone_started isRunning_started getEllapsed_eq millis_eq)

lemma reset_eq:
  "reset w = (let w1 = snd (stop w) in
     w1\<lparr>m_done := False, reads := Suc (reads w1), m_last := clock w1 (reads w1),
        m_repetitionCount := 0, m_callback := None\<rparr>)"
  by (cases "m_started w")
     (simp_all add: reset_def stop_started stop_stopped isDone_stopped millis_eq Let_def)

lemma isRunning_True:
  "fst (isRunning w) \<Longrightarrow> isRunning w = (True, w\<lparr>reads := Suc (reads w)\<rparr>)"
  by (cases "m_started w") (simp_all add: isRunning_started isRunning_stopped split: if_splits)

text \<open>The members that each function leaves alone or sets to a fixed value.\<close>

lemma Timer_fields:
  "m_repeatMode (Timer clk d) = False"
  "m_repetitionCount (Timer clk d) = 0"
  "m_time (Timer clk d) = d"
  "m_last (Timer clk d) = 0"
  "m_done (Timer clk d) = False"
  "m_started (Timer clk d) = False"
  "m_execOnce (Timer clk d) = False"
  "m_callback (Timer clk d) = None"
  "clock (Timer clk d) = clk"
  "reads (Timer clk d) = 0"
  "fired (Timer clk d) = []"
  by (simp_all add: Timer_def)

lemma isDone_fields:
  "m_repeatMode (snd (isDone w)) = m_repeatMode w"
  "m_repetitionCount (snd (isDone w)) = m_repetitionCount w"
  "m_time (snd (isDone w)) = m_time w"
  "m_last (snd (isDone w)) = m_last w"
  "m_started (snd (isDone w)) = m_started w"
  "m_execOnce (snd (isDone w)) = m_execOnce w"
  "m_callback (snd (isDone w)) = m_callback w"
  "clock (snd (isDone w)) = clock w"
  "fired (snd (isDone w)) = fired w"
  by (cases "m_started w"; simp add: isDone_started isDone_stopped)+

lemma isRunning_fields:
  "m_repeatMode (snd (isRunning w)) = m_repeatMode w"
  "m_repetitionCount (snd (isRunning w)) = m_repetitionCount w"
  "m_time (snd (isRunning w)) = m_time w"
  "m_last (snd (isRunning w)) = m_last w"
  "m_started (snd (isRunning w)) = m_started w"
  "m_execOnce (snd (isRunning w)) = m_execOnce w"
  "m_callback (snd (isRunning w)) = m_callback w"
  "clock (snd (isRunning w)) = clock w"
  "fired (snd (isRunning w)) = fired w"
  by (cases "m_started w"; simp add: isRunning_started isRunning_stopped)+

lemma stop_fields:
  "m_repeatMode (snd (stop w)) = m_repeatMode w"
  "m_repetitionCount (snd (stop w)) = m_repetitionCount w"
  "m_time (snd (stop w)) = m_time w"
  "m_started (snd (stop w)) = False"
  "m_execOnce (snd (stop w)) = m_execOnce w"
  "m_callback (snd (stop w)) = m_callback w"
  "clock (snd (stop w)) = clock w"
  "fired (snd (stop w)) = fired w"
  by (cases "m_started w"; simp add: stop_started stop_stopped)+

lemma reset_fields:
  "m_repeatMode (reset w) = m_repeatMode w"
  "m_repetitionCount (reset w) = 0"
  "m_time (reset w) = m_time w"
  "m_done (reset w) = False"
  "m_started (reset w) = False"
  "m_execOnce (reset w) = m_execOnce w"
  "m_callback (reset w) = None"
  "clock (reset w) = clock w"
  "fired (reset w) = fired w"
  by (simp_all add: reset_eq Let_def stop_fields)

lemma start_fields:
  "m_repeatMode (start w) = m_repeatMode w"
  "m_repetitionCount (start w) = m_repetitionCount w"
  "m_time (start w) = m_time w"
  "m_last (start w) = clock w (reads w)"
  "m_done (start w) = False"
  "m_started (start w) = True"
  "m_execOnce (start w) = m_execOnce w"
  "m_callback (start w) = m_callback w"
  "clock (start w) = clock w"
  "reads (start w) = Suc (reads w)"
  "fired (start w) = fired w"
  by (simp_all add: start_eq)

lemma tick_first_fire_stopped:
  assumes "m_repeatMode w" "\<not> m_execOnce w" "\<not> m_started w" "m_callback w = Some f"
  shows "tick w = Inr (w\<lparr>m_execOnce := True, m_repetitionCount := m_repetitionCount w - 1,
                         fired := fired w @ [f]\<rparr>)"
  using assms by (simp add: tick_def invoke_def isDone_stopped)

lemma setInterval_times_True:
  assumes "setInterval_times p n task w = (True, w1)"
  shows "w1 = start ((reset (snd (isRunning w)))\<lparr>m_callback := task, m_time := p,
                      m_repetitionCount := n, m_repeatMode := True\<rparr>)"
    and "\<not> m_execOnce w" and "\<not> fst (isRunning w)"
  using assms
  by (auto simp: setInterval_times_def Let_def split_def set_duration_def isRunning_fields
           split: if_splits)

lemma getEllapsed_fields:
  "m_callback (snd (getEllapsed w)) = m_callback w"
  "fired (snd (getEllapsed w)) = fired w"
  by (simp_all add: getEllapsed_eq)

text \<open>Scheduling on a fresh timer.\<close>

lemma setTimeout_fresh:
  "setTimeout D task (Timer clk d) =
     (True, (Timer clk d)\<lparr>m_time := D, m_callback := task, m_last := clk 0,
                           m_started := True, reads := 1\<rparr>)"
  by (simp add: setTimeout_def setTimeout_task_def set_duration_def isRunning_stopped start_eq
        Timer_def)

lemma setInterval_times_fresh:
  "setInterval_times P c task (Timer clk d) =
     (True, (Timer clk d)\<lparr>m_time := P, m_callback := task, m_repetitionCount := c,
                           m_repeatMode := True, m_last := clk 2, m_started := True,
                           reads := 3\<rparr>)"
  by (simp add: setInterval_times_def set_duration_def isRunning_stopped start_eq reset_eq
        stop_stopped Timer_def Let_def numeral_3_eq_3 numeral_2_eq_2)

section \<open>Invariants of the public interface\<close>

text \<open>
  No call changes the time source or takes back a read, and \<^verbatim>\<open>_last\<close> only ever
  receives a value that \<^verbatim>\<open>millis()\<close> returned.
\<close>

lemma advances_refl: "advances w w"
  by (simp add: advances_def)

lemma advances_trans: "advances a b \<Longrightarrow> advances b c \<Longrightarrow> advances a c"
  unfolding advances_def by (elim conjE disjE imageE) (auto intro!: imageI)

lemma advances_upd [simp]:
  "advances x (w\<lparr>m_repeatMode := a\<rparr>) = advances x w"
  "advances x (w\<lparr>m_repetitionCount := b\<rparr>) = advances x w"
  "advances x (w\<lparr>m_time := c\<rparr>) = advances x w"
  "advances x (w\<lparr>m_done := d\<rparr>) = advances x w"
  "advances x (w\<lparr>m_started := e\<rparr>) = advances x w"
  "advances x (w\<lparr>m_execOnce := f\<rparr>) = advances x w"
  "advances x (w\<lparr>m_callback := g\<rparr>) = advances x w"
  "advances x (w\<lparr>fired := h\<rparr>) = advances x w"
  by (simp_all add: advances_def)

lemma advances_millis: "advances w (w\<lparr>reads := Suc (reads w), m_last := clock w (reads w)\<rparr>)"
  "advances w (w\<lparr>reads := Suc (reads w)\<rparr>)"
  by (simp_all add: advances_def)

lemma advances_isDone: "advances w (snd (isDone w))"
  by (cases "m_started w") (simp_all add: isDone_started isDone_stopped advances_def)

lemma advances_isRunning: "advances w (snd (isRunning w))"
  by (cases "m_started w") (simp_all add: isRunning_started isRunning_stopped advances_def)

lemma advances_getEllapsed: "advances w (snd (getEllapsed w))"
  by (simp add: getEllapsed_eq advances_def)

lemma advances_start: "advances w (start w)"
  by (simp add: start_eq advances_def)

lemma advances_stop: "advances w (snd (stop w))"
  by (cases "m_started w") (auto simp add: stop_started stop_stopped advances_def)

lemma advances_reset: "advances w (reset w)"
proof -
  have "advances (snd (stop w)) (reset w)"
    by (simp add: reset_eq Let_def advances_def)
  with advances_stop show ?thesis by (rule advances_trans)
qed

lemma advances_set_duration: "advances w (set_duration d w)"
  by (simp add: set_duration_def advances_refl)

lemmas advances_after =
  advances_trans [OF _ advances_isDone] advances_trans [OF _ advances_isRunning]
  advances_trans [OF _ advances_start] advances_trans [OF _ advances_reset]
  advances_trans [OF _ advances_stop] advances_trans [OF _ advances_getEllapsed]

lemma advances_tick: "tick w = Inr w' \<Longrightarrow> advances w w'"
  by (auto simp: tick_def invoke_def Let_def split_def advances_refl
           split: option.splits if_splits sum.splits intro!: advances_after)

lemma advances_setTimeout_task: "advances w (snd (setTimeout_task task w))"
  by (auto simp: setTimeout_task_def Let_def split_def advances_refl intro!: advances_after)

lemma advances_setTimeout: "advances w (snd (setTimeout d task w))"
  by (auto simp: setTimeout_def set_duration_def setTimeout_task_def Let_def split_def advances_refl intro!: advances_after)

lemma advances_setInterval_times: "advances w (snd (setInterval_times p n task w))"
  by (auto simp: setInterval_times_def set_duration_def Let_def split_def advances_refl intro!: advances_after)

lemma advances_call: "do_call c w = Inr w' \<Longrightarrow> advances w w'"
  by (cases c)
     (auto simp: advances_setTimeout advances_setTimeout_task advances_setInterval_times
        setInterval_def advances_start advances_stop advances_reset advances_set_duration
        advances_tick advances_isDone advances_isRunning advances_getEllapsed)

lemma advances_calls: "do_calls cs w = Inr w' \<Longrightarrow> advances w w'"
proof (induction cs arbitrary: w)
  case Nil
  then show ?case by (simp add: advances_refl)
next
  case (Cons c cs)
  then show ?case
    by (auto split: sum.splits dest: advances_call intro: advances_trans)
qed

lemma last_read_advances: "last_read w \<Longrightarrow> advances w w' \<Longrightarrow> last_read w'"
  unfolding last_read_def advances_def by (elim conjE disjE imageE) (auto intro!: imageI)

lemma last_read_Timer: "last_read (Timer clk d)"
  by (simp add: last_read_def Timer_def)

lemma last_read_le: "mono (clock w) \<Longrightarrow> last_read w \<Longrightarrow> reads w \<le> j \<Longrightarrow> m_last w \<le> clock w j"
  unfolding last_read_def by (auto simp: mono_def)

lemma word_sub_mono_left: "(a::32 word) \<le> b \<Longrightarrow> b \<le> c \<Longrightarrow> b - a \<le> c - a"
  by (simp add: word_le_nat_alt unat_sub)

lemma mono_coarse_clock: "mono coarse_clock"
  by (simp add: mono_def coarse_clock_def)

text \<open>
  A function that is neither stored in the timer nor handed to it by a later call is not
  invoked: \<^verbatim>\<open>tick()\<close> calls the stored function only.
\<close>

lemma quiet_tick:
  assumes "tick w = Inr w'" and "m_callback w \<noteq> Some f"
  shows "quiet f w w'"
  using assms
  by (auto simp: quiet_def tick_def invoke_def Let_def split_def isDone_fields reset_fields
        start_fields split: option.splits if_splits sum.splits)

lemma quiet_setTimeout_task:
  "m_callback w \<noteq> Some f \<Longrightarrow> task \<noteq> Some f \<Longrightarrow> quiet f w (snd (setTimeout_task task w))"
  by (simp add: quiet_def setTimeout_task_def split_def Let_def isRunning_fields start_fields)

lemma quiet_setTimeout:
  "m_callback w \<noteq> Some f \<Longrightarrow> task \<noteq> Some f \<Longrightarrow> quiet f w (snd (setTimeout d task w))"
  by (simp add: quiet_def setTimeout_def setTimeout_task_def set_duration_def split_def
        Let_def isRunning_fields start_fields)

lemma quiet_setInterval_times:
  "m_callback w \<noteq> Some f \<Longrightarrow> task \<noteq> Some f \<Longrightarrow>
   quiet f w (snd (setInterval_times p n task w))"
  by (simp add: quiet_def setInterval_times_def set_duration_def split_def Let_def
        isRunning_fields start_fields reset_fields)

lemma quiet_call:
  assumes "do_call c w = Inr w'" and "m_callback w \<noteq> Some f" and "task_of c \<noteq> Some f"
  shows "quiet f w w'"
proof (cases c)
  case (SetTimeout d task)
  with assms show ?thesis by (auto simp: quiet_setTimeout)
next
  case (SetTimeoutTask task)
  with assms show ?thesis by (auto simp: quiet_setTimeout_task)
next
  case (SetInterval p task)
  with assms show ?thesis by (auto simp: setInterval_def quiet_setInterval_times)
next
  case (SetIntervalTimes p n task)
  with assms show ?thesis by (auto simp: quiet_setInterval_times)
next
  case Tick
  with assms show ?thesis by (simp add: quiet_tick)
qed (insert assms,
     auto simp: quiet_def start_fields stop_fields reset_fields set_duration_def isDone_fields
       isRunning_fields getEllapsed_fields)

lemma quiet_calls:
  assumes "do_calls cs w = Inr w'" and "m_callback w \<noteq> Some f"
    and "\<forall>c \<in> set cs. task_of c \<noteq> Some f"
  shows "quiet f w w'"
  using assms
proof (induction cs arbitrary: w)
  case Nil
  then show ?case by (simp add: quiet_def)
next
  case (Cons c cs)
  from Cons.prems(1) obtain w1 where c: "do_call c w = Inr w1" and cs: "do_calls cs w1 = Inr w'"
    by (auto split: sum.splits)
  have q1: "quiet f w w1"
    using c Cons.prems(2,3) by (simp add: quiet_call)
  then have "quiet f w1 w'"
    using Cons.IH [OF cs] Cons.prems(3) by (simp add: quiet_def)
  with q1 show ?case by (simp add: quiet_def)
qed

section \<open>Polling\<close>

text \<open>
  What a run of \<^verbatim>\<open>tick()\<close> calls does to a timer that waits for its deadline, that
  meets it, and that has stopped.
\<close>

lemma ticks_add:
  "ticks (m + n) w = (case ticks m w of Inl err \<Rightarrow> Inl err | Inr w1 \<Rightarrow> ticks n w1)"
  by (induction m arbitrary: w) (auto split: sum.splits)

lemma tick_idle:
  "\<not> m_started w \<Longrightarrow> \<not> (m_repeatMode w \<and> \<not> m_execOnce w) \<Longrightarrow> tick w = Inr w"
  by (auto simp: tick_def isDone_stopped)

lemma ticks_idle:
  "\<not> m_started w \<Longrightarrow> \<not> (m_repeatMode w \<and> \<not> m_execOnce w) \<Longrightarrow> ticks n w = Inr w"
  by (induction n) (simp_all add: tick_idle)

lemma tick_waiting:
  assumes "m_started w" and "\<not> (m_repeatMode w \<and> \<not> m_execOnce w)"
    and "\<not> m_time w \<le> clock w (reads w) - m_last w"
  shows "tick w = Inr (w\<lparr>reads := Suc (reads w)\<rparr>)"
  using assms by (auto simp: tick_def isDone_started)

lemma ticks_waiting:
  assumes "m_started w" and "\<not> (m_repeatMode w \<and> \<not> m_execOnce w)"
    and "\<forall>k. reads w \<le> k \<and> k < reads w + n \<longrightarrow> \<not> m_time w \<le> clock w k - m_last w"
  shows "ticks n w = Inr (w\<lparr>reads := reads w + n\<rparr>)"
  using assms
proof (induction n arbitrary: w)
  case 0
  then show ?case by simp
next
  case (Suc n)
  have t: "tick w = Inr (w\<lparr>reads := Suc (reads w)\<rparr>)"
    using Suc.prems by (intro tick_waiting) auto
  have "ticks n (w\<lparr>reads := Suc (reads w)\<rparr>)
        = Inr (w\<lparr>reads := Suc (reads w)\<rparr>\<lparr>reads := reads (w\<lparr>reads := Suc (reads w)\<rparr>) + n\<rparr>)"
    using Suc.prems by (intro Suc.IH) auto
  with t show ?case by simp
qed

text \<open>Polling a started timer until the first read that sees the deadline.\<close>

lemma ticks_until_due:
  assumes "m_started w" and "\<not> (m_repeatMode w \<and> \<not> m_execOnce w)"
    and "reads w \<le> j" and "m_time w \<le> clock w j - m_last w"
  shows "\<exists>n j'. ticks n w = Inr (w\<lparr>reads := j'\<rparr>) \<and> reads w \<le> j' \<and>
                m_time w \<le> clock w j' - m_last w \<and>
                (\<forall>k<n. ticks k w = Inr (w\<lparr>reads := reads w + k\<rparr>))"
proof -
  define Q where "Q k \<longleftrightarrow> reads w \<le> k \<and> m_time w \<le> clock w k - m_last w" for k
  define j' where "j' = (LEAST k. Q k)"
  have "Q j" using assms(3,4) by (simp add: Q_def)
  then have Qj': "Q j'"
    unfolding j'_def by (rule LeastI)
  have least: "\<not> Q k" if "k < j'" for k
    using that unfolding j'_def by (rule not_less_Least)
  have wait: "ticks k w = Inr (w\<lparr>reads := reads w + k\<rparr>)" if "k \<le> j' - reads w" for k
    using assms(1,2) least that by (intro ticks_waiting) (auto simp: Q_def)
  have "ticks (j' - reads w) w = Inr (w\<lparr>reads := j'\<rparr>)"
    using wait [of "j' - reads w"] Qj' by (simp add: Q_def)
  moreover have "\<forall>k < j' - reads w. ticks k w = Inr (w\<lparr>reads := reads w + k\<rparr>)"
    using wait by simp
  ultimately show ?thesis
    using Qj' unfolding Q_def by blast
qed

lemma tick_due_oneshot:
  assumes "m_started w" and "\<not> m_repeatMode w" and "m_callback w = Some f"
    and "m_time w \<le> clock w (reads w) - m_last w"
  shows "tick w = Inr (reset (w\<lparr>reads := Suc (reads w), m_done := True, fired := fired w @ [f]\<rparr>))"
  using assms by (simp add: tick_def isDone_started invoke_def)




lemma ticks_append:
  "ticks m w = Inr w1 \<Longrightarrow> ticks n w1 = Inr w2 \<Longrightarrow> ticks (m + n) w = Inr w2"
  by (simp add: ticks_add)

lemma ticks_snoc:
  assumes "ticks n w = Inr w1" and "tick w1 = Inr w2"
  shows "ticks (Suc n) w = Inr w2"
proof -
  have "ticks (Suc 0) w1 = Inr w2"
    using assms(2) by simp
  with assms(1) have "ticks (n + Suc 0) w = Inr w2"
    by (rule ticks_append)
  then show ?thesis
    by (simp del: ticks.simps)
qed





lemma ticks_settled:
  assumes "ticks n w = Inr w'" and "\<not> m_started w'" and "\<not> (m_repeatMode w' \<and> \<not> m_execOnce w')"
    and "n \<le> m"
  shows "ticks m w = Inr w'"
proof -
  have "ticks (m - n) w' = Inr w'"
    using assms(2,3) by (rule ticks_idle)
  with assms(1) have "ticks (n + (m - n)) w = Inr w'"
    by (rule ticks_append)
  with assms(4) show ?thesis by simp
qed





text \<open>Where the first-fire branch is not taken, the poll after a reset does nothing.\<close>

lemma tick_after_reset_idle:
  "\<not> (m_repeatMode w \<and> \<not> m_execOnce w) \<Longrightarrow> tick (reset w) = Inr (reset w)"
  by (rule tick_idle) (simp_all add: reset_fields)

text \<open>The first-fire guard: nothing clears it, and it blocks \<^verbatim>\<open>setInterval\<close>.\<close>

lemma execOnce_call: "do_call c w = Inr w' \<Longrightarrow> m_execOnce w \<Longrightarrow> m_execOnce w'"
  by (cases c)
     (auto simp: tick_def invoke_def Let_def split_def setTimeout_def setTimeout_task_def
        setInterval_def setInterval_times_def set_duration_def isDone_fields isRunning_fields
        start_fields stop_fields reset_fields getEllapsed_eq
        split: if_splits option.splits sum.splits)

lemma execOnce_calls: "do_calls cs w = Inr w' \<Longrightarrow> m_execOnce w \<Longrightarrow> m_execOnce w'"
  by (induction cs arbitrary: w) (auto split: sum.splits dest: execOnce_call)

lemma execOnce_blocks: "m_execOnce w \<Longrightarrow> \<not> fst (setInterval_times p n task w)"
  by (simp add: setInterval_times_def split_def isRunning_fields)

section \<open>Scheduling over a function that is due\<close>

text \<open>
  A function \<open>A\<close> is stored in a started timer whose deadline has passed at the next
  reading of the clock. Then \<^verbatim>\<open>isRunning()\<close> is false, and a call of
  \<^verbatim>\<open>setTimeout\<close> with another function \<open>B\<close> that returns true stores \<open>B\<close>:
  \<^verbatim>\<open>setTimeout(task)\<close> always does, \<^verbatim>\<open>setTimeout(delayPeriod, task)\<close> where its
  second running test, made against the new delay, passes too. After that, no sequence of
  calls that does not hand \<open>A\<close> to the timer again invokes \<open>A\<close>.
\<close>

lemma reschedule_drops_pending_callback:
  assumes "m_started w" and "m_callback w = Some A"
    and "m_time w \<le> clock w (reads w) - m_last w" and "A \<noteq> B"
    and "r = setTimeout_task (Some B) w \<or>
         (D \<le> clock w (Suc (reads w)) - m_last w \<and> r = setTimeout D (Some B) w)"
    and "\<forall>c \<in> set cs. task_of c \<noteq> Some A" and "do_calls cs (snd r) = Inr w2"
  shows "\<not> fst (isRunning w) \<and> fst r \<and> m_callback (snd r) = Some B \<and>
         fired (snd r) = fired w \<and> count_list (fired w2) A = count_list (fired w) A"
proof -
  have nr: "isRunning w = (False, w\<lparr>reads := Suc (reads w), m_done := True\<rparr>)"
    using assms(1,3) by (simp add: isRunning_started)
  have r: "fst r \<and> m_callback (snd r) = Some B \<and> fired (snd r) = fired w"
    using assms(5)
  proof
    assume "r = setTimeout_task (Some B) w"
    then show ?thesis
      by (simp add: setTimeout_task_def nr start_fields)
  next
    assume "D \<le> clock w (Suc (reads w)) - m_last w \<and> r = setTimeout D (Some B) w"
    then show ?thesis
      using assms(1)
      by (simp add: setTimeout_def setTimeout_task_def set_duration_def nr isRunning_started
            start_fields)
  qed
  then have "m_callback (snd r) \<noteq> Some A"
    using assms(4) by simp
  from quiet_calls [OF assms(7) this assms(6)] r
  have "count_list (fired w2) A = count_list (fired w) A"
    by (simp add: quiet_def)
  with nr r show ?thesis by simp
qed

lemma reschedule_drops_pending_callback_example:
  "m_started (snd (setTimeout 100 (Some ''A'') (Timer coarse_clock 1000))) \<and>
   m_callback (snd (setTimeout 100 (Some ''A'') (Timer coarse_clock 1000))) = Some ''A'' \<and>
   (100 :: 32 word) \<le> coarse_clock 1 - 0 \<and> (50 :: 32 word) \<le> coarse_clock 2 - 0 \<and>
   ''A'' \<noteq> ''B'' \<and>
   \<not> fst (isRunning (snd (setTimeout 100 (Some ''A'') (Timer coarse_clock 1000)))) \<and>
   fst (setTimeout_task (Some ''B'')
         (snd (setTimeout 100 (Some ''A'') (Timer coarse_clock 1000)))) \<and>
   m_callback (snd (setTimeout_task (Some ''B'')
         (snd (setTimeout 100 (Some ''A'') (Timer coarse_clock 1000))))) = Some ''B'' \<and>
   (\<exists>w2. do_calls [Tick, Tick, Tick]
           (snd (setTimeout_task (Some ''B'')
             (snd (setTimeout 100 (Some ''A'') (Timer coarse_clock 1000))))) = Inr w2 \<and>
         count_list (fired w2) ''A'' = 0 \<and> fired w2 = [''B'']) \<and>
   fst (setTimeout 50 (Some ''B'')
         (snd (setTimeout 100 (Some ''A'') (Timer coarse_clock 1000)))) \<and>
   m_callback (snd (setTimeout 50 (Some ''B'')
         (snd (setTimeout 100 (Some ''A'') (Timer coarse_clock 1000))))) = Some ''B'' \<and>
   (\<exists>w2. do_calls [Tick, Tick]
           (snd (setTimeout 50 (Some ''B'')
             (snd (setTimeout 100 (Some ''A'') (Timer coarse_clock 1000))))) = Inr w2 \<and>
         count_list (fired w2) ''A'' = 0 \<and> fired w2 = [''B''])"
proof -
  let ?w = "snd (setTimeout 100 (Some ''A'') (Timer coarse_clock 1000))"
  let ?r1 = "setTimeout_task (Some ''B'') ?w"
  let ?r2 = "setTimeout 50 (Some ''B'') ?w"
  have f: "m_started ?w" "m_callback ?w = Some ''A''"
    "m_time ?w \<le> clock ?w (reads ?w) - m_last ?w" "fired ?w = []"
    "(100 :: 32 word) \<le> coarse_clock 1 - 0" "(50 :: 32 word) \<le> coarse_clock 2 - 0"
    "50 \<le> clock ?w (Suc (reads ?w)) - m_last ?w"
    by (simp_all add: setTimeout_fresh Timer_fields coarse_clock_def)
  have ne: "''A'' \<noteq> ''B''"
    by simp
  have form1: "?r1 = setTimeout_task (Some ''B'') ?w \<or>
     (50 \<le> clock ?w (Suc (reads ?w)) - m_last ?w \<and> ?r1 = setTimeout 50 (Some ''B'') ?w)"
    by simp
  have form2: "?r2 = setTimeout_task (Some ''B'') ?w \<or>
     (50 \<le> clock ?w (Suc (reads ?w)) - m_last ?w \<and> ?r2 = setTimeout 50 (Some ''B'') ?w)"
    using f(7) by simp
  have cs1: "\<forall>c \<in> set [Tick, Tick, Tick]. task_of c \<noteq> Some ''A''"
    and cs2: "\<forall>c \<in> set [Tick, Tick]. task_of c \<noteq> Some ''A''"
    by simp_all
  have "map_sum id fired (do_calls [Tick, Tick, Tick] (snd ?r1)) = Inr [''B'']"
    by code_simp
  then obtain w1 where w1: "do_calls [Tick, Tick, Tick] (snd ?r1) = Inr w1" "fired w1 = [''B'']"
    by (cases "do_calls [Tick, Tick, Tick] (snd ?r1)") auto
  have "map_sum id fired (do_calls [Tick, Tick] (snd ?r2)) = Inr [''B'']"
    by code_simp
  then obtain w2 where w2: "do_calls [Tick, Tick] (snd ?r2) = Inr w2" "fired w2 = [''B'']"
    by (cases "do_calls [Tick, Tick] (snd ?r2)") auto
  note one = reschedule_drops_pending_callback [OF f(1,2,3) ne form1 cs1 w1(1)]
  note two = reschedule_drops_pending_callback [OF f(1,2,3) ne form2 cs2 w2(1)]
  have "\<exists>w2. do_calls [Tick, Tick, Tick] (snd ?r1) = Inr w2 \<and>
         count_list (fired w2) ''A'' = 0 \<and> fired w2 = [''B'']"
    using w1 by simp
  moreover have "\<exists>w2. do_calls [Tick, Tick] (snd ?r2) = Inr w2 \<and>
         count_list (fired w2) ''A'' = 0 \<and> fired w2 = [''B'']"
    using w2 by simp
  ultimately show ?thesis
    using f(1,2,5,6) ne one two by blast
qed

section \<open>The claims\<close>



text \<open>
  Claim C2. On a fresh timer \<^verbatim>\<open>setTimeout(D, A)\<close> succeeds; the timer is started by the
  read number 0. When some later read \<open>j\<close> sees the delay elapsed, there is a poll
  before which \<open>A\<close> has not been invoked, and from which on \<open>A\<close> has been invoked
  once and \<^verbatim>\<open>isRunning()\<close> is false.
\<close>

theorem one_shot_fires_once:
  assumes "0 < j" and "D \<le> clk j - clk 0"
  shows "fst (setTimeout D (Some A) (Timer clk d)) \<and>
         (\<exists>n. (\<forall>m<n. \<exists>w'. ticks m (snd (setTimeout D (Some A) (Timer clk d))) = Inr w' \<and>
                         fired w' = []) \<and>
              (\<forall>m\<ge>n. \<exists>w'. ticks m (snd (setTimeout D (Some A) (Timer clk d))) = Inr w' \<and>
                         fired w' = [A] \<and> \<not> fst (isRunning w')))"
proof -
  let ?W = "(Timer clk d)\<lparr>m_time := D, m_callback := Some A, m_last := clk 0,
                           m_started := True, reads := 1\<rparr>"
  have W: "setTimeout D (Some A) (Timer clk d) = (True, ?W)"
    by (rule setTimeout_fresh)
  have f: "m_started ?W" "\<not> m_repeatMode ?W" "m_callback ?W = Some A" "fired ?W = []"
    "reads ?W \<le> j" "m_time ?W \<le> clock ?W j - m_last ?W"
    using assms by (simp_all add: Timer_def)
  from ticks_until_due [OF f(1) _ f(5,6)] f(2)
  obtain n j' where n: "ticks n ?W = Inr (?W\<lparr>reads := j'\<rparr>)"
    and due: "m_time ?W \<le> clock ?W j' - m_last ?W"
    and before: "\<forall>k<n. ticks k ?W = Inr (?W\<lparr>reads := reads ?W + k\<rparr>)"
    by auto
  let ?w' = "reset (?W\<lparr>reads := Suc j', m_done := True, fired := [A]\<rparr>)"
  have "tick (?W\<lparr>reads := j'\<rparr>) = Inr ?w'"
    using tick_due_oneshot [of "?W\<lparr>reads := j'\<rparr>" A] due by (simp add: Timer_def)
  with n have fire: "ticks (Suc n) ?W = Inr ?w'"
    by (rule ticks_snoc)
  have w': "\<not> m_started ?w'" "\<not> m_repeatMode ?w'" "fired ?w' = [A]"
    by (simp_all add: reset_fields Timer_def)
  have early: "\<exists>w'. ticks m ?W = Inr w' \<and> fired w' = []" if "m < Suc n" for m
  proof (cases "m = n")
    case True
    then show ?thesis using n by (simp add: Timer_def)
  next
    case False
    with that have "m < n" by simp
    with before show ?thesis by (simp add: Timer_def)
  qed
  have late: "\<exists>w'. ticks m ?W = Inr w' \<and> fired w' = [A] \<and> \<not> fst (isRunning w')"
    if "Suc n \<le> m" for m
    using ticks_settled [OF fire _ _ that] w' by (simp add: isRunning_stopped)
  from early late
  have "\<exists>n. (\<forall>m<n. \<exists>w'. ticks m ?W = Inr w' \<and> fired w' = []) \<and>
            (\<forall>m\<ge>n. \<exists>w'. ticks m ?W = Inr w' \<and> fired w' = [A] \<and> \<not> fst (isRunning w'))"
    by blast
  then show ?thesis
    by (simp only: W fst_conv snd_conv simp_thms)
qed

theorem one_shot_fires_once_witness:
  "(0::nat) < 5 \<and> (5 :: 32 word) \<le> step_clock 1 5 - step_clock 1 0 \<and>
   fst (setTimeout 5 (Some ''A'') (Timer (step_clock 1) 1000)) \<and>
   (\<exists>n. (\<forall>m<n. \<exists>w'. ticks m (snd (setTimeout 5 (Some ''A'') (Timer (step_clock 1) 1000))) = Inr w' \<and>
                   fired w' = []) \<and>
        (\<forall>m\<ge>n. \<exists>w'. ticks m (snd (setTimeout 5 (Some ''A'') (Timer (step_clock 1) 1000))) = Inr w' \<and>
                   fired w' = [''A''] \<and> \<not> fst (isRunning w')))"
proof -
  have h: "(0::nat) < 5" "(5 :: 32 word) \<le> step_clock 1 5 - step_clock 1 0"
    by (simp_all add: step_clock_def)
  from h one_shot_fires_once [OF h, of "''A''" 1000] show ?thesis by simp
qed

text \<open>
  Claim C3 (after a counted sequence has completed, \<^verbatim>\<open>setInterval\<close> succeeds again).
  The code does not do this: \<^verbatim>\<open>_execOnce\<close> is set by the first \<^verbatim>\<open>tick()\<close> of a
  repeating timer and no function clears it (\<open>execOnce_calls\<close>), so \<^verbatim>\<open>setInterval\<close>
  fails from then on (\<open>execOnce_blocks\<close>). With a clock that advances by 50 ms per read,
  \<^verbatim>\<open>setInterval(100, 3, A)\<close> on a fresh timer and six polls invoke \<open>A\<close> three times
  and leave the timer stopped with no stored function; a second
  \<^verbatim>\<open>setInterval(100, 3, A)\<close> then returns false, also after a \<^verbatim>\<open>reset()\<close>.
\<close>

theorem setInterval_fails_after_completed_repeat:
  "\<exists>w'. ticks 6 (snd (setInterval_times 100 3 (Some ''A'') (Timer (step_clock 50) 1000))) = Inr w' \<and>
        fired w' = [''A'', ''A'', ''A''] \<and> m_callback w' = None \<and> m_repetitionCount w' = 0 \<and>
        fst (isRunning w') = False \<and>
        fst (setInterval_times 100 3 (Some ''A'') w') = False \<and>
        fst (setInterval_times 100 3 (Some ''A'') (reset w')) = False"
proof -
  let ?r = "ticks 6 (snd (setInterval_times 100 3 (Some ''A'') (Timer (step_clock 50) 1000)))"
  have "map_sum id (\<lambda>w. (fired w, m_callback w, m_repetitionCount w, fst (isRunning w),
                          fst (setInterval_times 100 3 (Some ''A'') w),
                          fst (setInterval_times 100 3 (Some ''A'') (reset w)))) ?r
        = Inr ([''A'', ''A'', ''A''], None, 0, False, False, False)"
    by code_simp
  then show ?thesis
    by (cases ?r) auto
qed

text \<open>
  Claim C4 (the \<^verbatim>\<open>tick()\<close> after a \<^verbatim>\<open>reset()\<close> invokes nothing and does no harm).
  The code does otherwise in one case: after \<^verbatim>\<open>setInterval\<close> on a fresh timer and
  \<^verbatim>\<open>reset()\<close>, the stored pointer is null, the timer is in repeat mode and the
  first-fire guard is unset, so the next \<^verbatim>\<open>tick()\<close> takes the first-fire branch and
  calls through the null pointer; the test \<^verbatim>\<open>if (!_callback) return\<close> comes after.
  Where the first-fire branch is not taken, the poll after a reset does nothing
  (\<open>tick_after_reset_idle\<close>).
\<close>

theorem tick_after_reset_calls_null:
  "tick (reset (snd (setInterval_times p n task (Timer clk d)))) = Inl NullCallback"
  by (simp add: setInterval_times_fresh tick_def invoke_def reset_fields Timer_fields)

text \<open>
  Claim C5. While the timer is running, that is, while the \<^verbatim>\<open>isRunning()\<close> test that
  opens the call answers true, each of the four scheduling functions returns false,
  and the world after the call is the world before it with one more read of the clock:
  no member of the timer has changed and nothing was invoked.
\<close>

theorem busy_schedule_rejected:
  assumes "fst (isRunning w)"
  shows "setTimeout d task w = (False, w\<lparr>reads := Suc (reads w)\<rparr>) \<and>
         setTimeout_task task w = (False, w\<lparr>reads := Suc (reads w)\<rparr>) \<and>
         setInterval p task w = (False, w\<lparr>reads := Suc (reads w)\<rparr>) \<and>
         setInterval_times p n task w = (False, w\<lparr>reads := Suc (reads w)\<rparr>)"
  using isRunning_True [OF assms]
  by (simp add: setTimeout_def setTimeout_task_def setInterval_def setInterval_times_def)

theorem busy_schedule_rejected_witness:
  "fst (isRunning (snd (setTimeout 100 (Some ''A'') (Timer (step_clock 10) 1000)))) \<and>
   setTimeout 7 (Some ''B'') (snd (setTimeout 100 (Some ''A'') (Timer (step_clock 10) 1000)))
     = (False, (snd (setTimeout 100 (Some ''A'') (Timer (step_clock 10) 1000)))\<lparr>reads := 2\<rparr>) \<and>
   setInterval_times 7 3 (Some ''B'') (snd (setTimeout 100 (Some ''A'') (Timer (step_clock 10) 1000)))
     = (False, (snd (setTimeout 100 (Some ''A'') (Timer (step_clock 10) 1000)))\<lparr>reads := 2\<rparr>)"
proof -
  let ?w = "snd (setTimeout 100 (Some ''A'') (Timer (step_clock 10) 1000))"
  have run: "fst (isRunning ?w)"
    by (simp add: setTimeout_fresh isRunning_started Timer_fields step_clock_def)
  have "reads ?w = 1"
    by (simp add: setTimeout_fresh)
  with run busy_schedule_rejected [OF run, of 7 "Some ''B''" 7 3] show ?thesis
    by simp
qed

text \<open>
  Claim C6. Take any state that a sequence of public calls reaches from a fresh timer, under
  a time source whose readings never decrease. Two calls of \<^verbatim>\<open>stop()\<close> in a row, with
  no start in between: \<^verbatim>\<open>isRunning()\<close> is false after each of them, and the elapsed
  time that the second returns is at least the one that the first returned.
\<close>

theorem stop_twice_elapsed_monotone:
  assumes "mono clk" and "do_calls cs (Timer clk d) = Inr w"
  shows "let (e1, w1) = stop w; (r1, w2) = isRunning w1;
             (e2, w3) = stop w2; (r2, w4) = isRunning w3
         in \<not> r1 \<and> \<not> r2 \<and> e1 \<le> e2"
proof -
  have adv: "advances (Timer clk d) w"
    using assms(2) by (rule advances_calls)
  have clk: "clock w = clk"
    using adv by (simp add: advances_def Timer_def)
  have lr: "last_read w"
    using last_read_Timer adv by (rule last_read_advances)
  have le: "m_last w \<le> clk j" if "reads w \<le> j" for j
    using last_read_le [of w j] assms(1) lr that by (simp add: clk)
  have up: "clk i \<le> clk j" if "i \<le> j" for i j
    using assms(1) that by (rule monoD)
  show ?thesis
  proof (cases "m_started w")
    case False
    then show ?thesis
      by (simp add: stop_stopped isRunning_stopped clk le up word_sub_mono_left)
  next
    case True
    then show ?thesis
      by (simp add: stop_started stop_stopped isRunning_stopped clk le up word_sub_mono_left)
  qed
qed

theorem stop_twice_elapsed_monotone_witness:
  "mono coarse_clock \<and>
   do_calls [SetTimeout 100 (Some ''A''), IsRunning] (Timer coarse_clock 1000)
     = Inr (snd (isRunning (snd (setTimeout 100 (Some ''A'') (Timer coarse_clock 1000))))) \<and>
   (let (e1, w1) = stop (snd (isRunning (snd (setTimeout 100 (Some ''A'') (Timer coarse_clock 1000)))));
        (r1, w2) = isRunning w1; (e2, w3) = stop w2; (r2, w4) = isRunning w3
    in \<not> r1 \<and> \<not> r2 \<and> e1 \<le> e2) \<and>
   fst (stop (snd (isRunning (snd (setTimeout 100 (Some ''A'') (Timer coarse_clock 1000)))))) = 150 \<and>
   fst (stop (snd (stop (snd (isRunning (snd (setTimeout 100 (Some ''A'')
     (Timer coarse_clock 1000)))))))) = 1200"
proof -
  let ?w = "snd (isRunning (snd (setTimeout 100 (Some ''A'') (Timer coarse_clock 1000))))"
  have r: "do_calls [SetTimeout 100 (Some ''A''), IsRunning] (Timer coarse_clock 1000) = Inr ?w"
    by simp
  have w: "?w = (Timer coarse_clock 1000)\<lparr>m_time := 100, m_callback := Some ''A'', m_last := 0,
                   m_started := True, reads := 2, m_done := True\<rparr>"
    by (simp add: setTimeout_fresh isRunning_started Timer_fields coarse_clock_def)
  have e: "fst (stop ?w) = 150" "fst (stop (snd (stop ?w))) = 1200"
    unfolding w by (simp_all add: stop_started stop_stopped Timer_fields coarse_clock_def)
  from mono_coarse_clock r stop_twice_elapsed_monotone [OF mono_coarse_clock r] e show ?thesis
    by simp
qed

text \<open>
  Claim C7. \<^verbatim>\<open>set(duration)\<close> can be called in every state of the timer, and it changes
  the duration alone: \<^verbatim>\<open>_last\<close>, \<^verbatim>\<open>_started\<close>, \<^verbatim>\<open>_done\<close>, the repeat
  mode, the repetition count, the first-fire guard and the stored function keep their
  values. It reads no time and invokes nothing.
\<close>

theorem set_duration_only_sets_time:
  "m_time (set_duration d w) = d \<and>
   m_last (set_duration d w) = m_last w \<and>
   m_started (set_duration d w) = m_started w \<and>
   m_done (set_duration d w) = m_done w \<and>
   m_repeatMode (set_duration d w) = m_repeatMode w \<and>
   m_repetitionCount (set_duration d w) = m_repetitionCount w \<and>
   m_execOnce (set_duration d w) = m_execOnce w \<and>
   m_callback (set_duration d w) = m_callback w \<and>
   clock (set_duration d w) = clock w \<and>
   reads (set_duration d w) = reads w \<and>
   fired (set_duration d w) = fired w"
  by (simp add: set_duration_def)

text \<open>
  Claim C8 (when the deadline of a one-shot has passed and \<^verbatim>\<open>tick()\<close> has not run,
  \<^verbatim>\<open>isRunning()\<close> is false, so a new \<^verbatim>\<open>setTimeout\<close> succeeds and replaces the
  pending function). \<^verbatim>\<open>setTimeout(task)\<close> does so, but
  \<^verbatim>\<open>setTimeout(delayPeriod, task)\<close> does not when the new delay has not passed yet.
  \<open>A\<close> is scheduled at time 0 with a delay of 100 ms; at time 150, before any
  \<^verbatim>\<open>tick()\<close>, \<^verbatim>\<open>isRunning()\<close> is false and \<^verbatim>\<open>setTimeout(B)\<close> would succeed, yet
  \<^verbatim>\<open>setTimeout(1000, B)\<close> returns false: its own test passes, it sets the duration to
  1000 with \<^verbatim>\<open>_done\<close> latched, and the test of \<^verbatim>\<open>setTimeout(task)\<close> then sees
  150 < 1000. The call that failed has changed the timer: \<open>A\<close> stays stored, is not
  invoked by the next two polls at time 150, where its own delay of 100 ms has passed, and
  is invoked by the third, at time 1200.
\<close>

theorem reschedule_longer_delay_keeps_pending_callback:
  "m_started (snd (setTimeout 100 (Some ''A'') (Timer coarse_clock 1000))) \<and>
   m_callback (snd (setTimeout 100 (Some ''A'') (Timer coarse_clock 1000))) = Some ''A'' \<and>
   m_time (snd (setTimeout 100 (Some ''A'') (Timer coarse_clock 1000))) = 100 \<and>
   m_done (snd (setTimeout 100 (Some ''A'') (Timer coarse_clock 1000))) = False \<and>
   fired (snd (setTimeout 100 (Some ''A'') (Timer coarse_clock 1000))) = [] \<and>
   fst (isRunning (snd (setTimeout 100 (Some ''A'') (Timer coarse_clock 1000)))) = False \<and>
   fst (setTimeout_task (Some ''B'')
         (snd (setTimeout 100 (Some ''A'') (Timer coarse_clock 1000)))) = True \<and>
   m_callback (snd (setTimeout_task (Some ''B'')
         (snd (setTimeout 100 (Some ''A'') (Timer coarse_clock 1000))))) = Some ''B'' \<and>
   fst (setTimeout 1000 (Some ''B'')
         (snd (setTimeout 100 (Some ''A'') (Timer coarse_clock 1000)))) = False \<and>
   m_callback (snd (setTimeout 1000 (Some ''B'')
         (snd (setTimeout 100 (Some ''A'') (Timer coarse_clock 1000))))) = Some ''A'' \<and>
   m_time (snd (setTimeout 1000 (Some ''B'')
         (snd (setTimeout 100 (Some ''A'') (Timer coarse_clock 1000))))) = 1000 \<and>
   m_done (snd (setTimeout 1000 (Some ''B'')
         (snd (setTimeout 100 (Some ''A'') (Timer coarse_clock 1000))))) = True \<and>
   map_sum id fired (ticks 2 (snd (setTimeout 1000 (Some ''B'')
         (snd (setTimeout 100 (Some ''A'') (Timer coarse_clock 1000)))))) = Inr [] \<and>
   map_sum id fired (ticks 3 (snd (setTimeout 1000 (Some ''B'')
         (snd (setTimeout 100 (Some ''A'') (Timer coarse_clock 1000)))))) = Inr [''A'']"
  by code_simp

text \<open>
  Claim C9. The first fire of a repeating timer does not need the timer to be started:
  when \<^verbatim>\<open>setInterval(period, times, task)\<close> has succeeded with a function that is not
  null and \<^verbatim>\<open>stop()\<close> is called before any \<^verbatim>\<open>tick()\<close>, the next \<^verbatim>\<open>tick()\<close>
  invokes the function once and decrements the repetition count, and the timer stays
  stopped.
\<close>

theorem first_fire_after_stop:
  assumes "setInterval_times p n (Some A) w = (True, w1)"
  shows "\<exists>w2. tick (snd (stop w1)) = Inr w2 \<and> fired w2 = fired w @ [A] \<and>
              m_repetitionCount w2 = n - 1 \<and> \<not> m_started w2"
proof -
  let ?s = "snd (stop w1)"
  note ok = setInterval_times_True [OF assms]
  have "m_repeatMode ?s" "\<not> m_execOnce ?s" "\<not> m_started ?s" "m_callback ?s = Some A"
       "fired ?s = fired w" "m_repetitionCount ?s = n"
    using ok(2) by (simp_all add: ok(1) stop_fields start_fields reset_fields isRunning_fields)
  then show ?thesis
    by (simp add: tick_first_fire_stopped)
qed

theorem first_fire_after_stop_witness:
  "setInterval_times 100 3 (Some ''A'') (Timer (step_clock 1) 1000)
     = (True, snd (setInterval_times 100 3 (Some ''A'') (Timer (step_clock 1) 1000))) \<and>
   (\<exists>w2. tick (snd (stop (snd (setInterval_times 100 3 (Some ''A'') (Timer (step_clock 1) 1000)))))
            = Inr w2 \<and>
         fired w2 = [''A''] \<and> m_repetitionCount w2 = 2 \<and> \<not> m_started w2)"
proof -
  have ok: "setInterval_times 100 3 (Some ''A'') (Timer (step_clock 1) 1000)
     = (True, snd (setInterval_times 100 3 (Some ''A'') (Timer (step_clock 1) 1000)))"
    by (simp add: setInterval_times_fresh)
  from ok first_fire_after_stop [OF ok] show ?thesis
    by (simp add: Timer_fields)
qed

text \<open>
  Claim C10. \<^verbatim>\<open>stop()\<close> reads the clock four times on a started timer: for
  \<^verbatim>\<open>isDone()\<close>, for \<^verbatim>\<open>isRunning()\<close>, for the refresh of \<^verbatim>\<open>_last\<close> and for
  the returned \<^verbatim>\<open>getEllapsed()\<close>. When the timer is started and the running test sees
  an elapsed time below the duration, \<^verbatim>\<open>_last\<close> becomes the third reading; when the
  clock does not advance from the third reading to the fourth, the call returns 0, not the
  time since the timer was started.
\<close>

theorem stop_running_returns_zero:
  assumes "m_started w"
    and "clock w (reads w + 1) - m_last w < m_time w"
    and "clock w (reads w + 3) = clock w (reads w + 2)"
  shows "fst (stop w) = 0 \<and> m_last (snd (stop w)) = clock w (reads w + 2) \<and>
         \<not> m_started (snd (stop w))"
  using assms by (simp add: stop_started not_le [symmetric] numeral_3_eq_3 numeral_2_eq_2)

theorem stop_running_returns_zero_witness:
  "m_started (snd (setTimeout 500 (Some ''A'') (Timer coarse_clock 1000))) \<and>
   coarse_clock 2 - 0 < (500 :: 32 word) \<and> coarse_clock 4 = coarse_clock 3 \<and>
   fst (stop (snd (setTimeout 500 (Some ''A'') (Timer coarse_clock 1000)))) = 0 \<and>
   m_last (snd (stop (snd (setTimeout 500 (Some ''A'') (Timer coarse_clock 1000))))) = 150"
proof -
  let ?w = "snd (setTimeout 500 (Some ''A'') (Timer coarse_clock 1000))"
  have f: "m_started ?w" "reads ?w = 1" "m_last ?w = 0" "m_time ?w = 500" "clock ?w = coarse_clock"
    by (simp_all add: setTimeout_fresh Timer_fields coarse_clock_def)
  have h: "clock ?w (reads ?w + 1) - m_last ?w < m_time ?w"
    "clock ?w (reads ?w + 3) = clock ?w (reads ?w + 2)"
    by (simp_all add: f coarse_clock_def)
  from stop_running_returns_zero [OF f(1) h] show ?thesis
    by (simp add: f coarse_clock_def)
qed

end
